theory Spec2Isabelle
  imports Main
begin

section \<open>Errors\<close>

text \<open>
  The exceptions of \<^verbatim>\<open>inference.py\<close> become values. \<open>IndexError\<close>, \<open>ValueError\<close>,
  \<open>UnicodeDecodeError\<close> and \<open>AttributeError\<close> are the Python exceptions that the
  statements of the file can raise; \<open>RuntimeError\<close> is what a failing call of the
  library (the engine, the device) raises. The last four constructors are the failure
  names of the specification's taxonomy; no statement of the source raises them, and no
  definition below returns them.
\<close>

datatype error =
    IndexError
  | ValueError
  | UnicodeDecodeError
  | AttributeError
  | RuntimeError
  | EmptyBatchError
  | InvalidSequenceError
  | PermutationMismatchError
  | LengthOverflowError

section \<open>The batch packer: \<^verbatim>\<open>pad_sequences\<close>\<close>

subsection \<open>The library sort\<close>

text \<open>
  \<^verbatim>\<open>torch.sort(t, dim=0, descending=True)\<close> is a library routine, not code of the
  repository. It is a parameter of the model: a function from the list of lengths to the
  pair (sorted values, indices). The source calls it without \<^verbatim>\<open>stable=True\<close>, so all
  that is known of it is its documented result: the indices are a permutation of the
  positions, the values are the input read at these indices, and the values do not
  increase. \<open>torch_sort_desc_ok srt xs\<close> says that \<open>srt\<close> keeps this contract on \<open>xs\<close>.
\<close>

type_synonym sorter = "nat list \<Rightarrow> nat list \<times> nat list"

definition torch_sort_desc_ok :: "sorter \<Rightarrow> nat list \<Rightarrow> bool" where
  "torch_sort_desc_ok srt xs =
     (case srt xs of (vals, ids) \<Rightarrow>
        distinct ids \<and> set ids = set [0..<length xs] \<and>
        vals = map (\<lambda>i. xs ! i) ids \<and> sorted (rev vals))"

text \<open>
  Two sorting routines that keep the contract on every input, for evaluating the model
  on concrete inputs. \<open>sort_desc_stable\<close> leaves equal values in their input order;
  \<open>sort_desc_flip\<close> sorts increasingly and reverses, which puts equal values in the
  reverse of their input order.
\<close>

definition sort_desc_stable :: sorter where
  "sort_desc_stable xs =
     (let ids = rev (sort_key (\<lambda>i. xs ! i) (rev [0..<length xs]))
      in (map (\<lambda>i. xs ! i) ids, ids))"

definition sort_desc_flip :: sorter where
  "sort_desc_flip xs =
     (let ids = rev (sort_key (\<lambda>i. xs ! i) [0..<length xs])
      in (map (\<lambda>i. xs ! i) ids, ids))"

text \<open>
  A sort for evaluating the packer on ties. When stability is not asked for, a kernel
  that sorts the pairs (value, index) with the introsort of the C++ standard library
  (\<^verbatim>\<open>std::sort\<close>) leaves 17 equal values with their indices in the order below: the
  median-of-three step exchanges the positions 0 and 8, the partition exchanges the
  positions 1 to 8 with the positions 16 down to 9, and the closing insertion sort moves
  nothing. Up to 16 values this routine is an insertion sort, which leaves equal values
  in their input order; on every input other than 17 equal values the definition is
  \<open>sort_desc_stable\<close>.
\<close>

definition sort_desc_introsort_ties :: sorter where
  "sort_desc_introsort_ties xs =
     (if xs = replicate 17 (hd xs)
      then (xs, [8, 16, 15, 14, 13, 12, 11, 10, 9, 0, 7, 6, 5, 4, 3, 2, 1])
      else sort_desc_stable xs)"

subsection \<open>Padding and stacking\<close>

text \<open>
  \<^verbatim>\<open>np.pad(text, [0, n], mode='constant')\<close>: nothing before, \<open>n\<close> zeros after
  (\<^verbatim>\<open>constant_values\<close> defaults to 0).
\<close>

definition np_pad_right :: "int list \<Rightarrow> nat \<Rightarrow> int list" where
  "np_pad_right text n = text @ replicate n 0"

text \<open>
  The loop of \<^verbatim>\<open>pad_sequences\<close> over \<^verbatim>\<open>range(len(ids_sorted_decreasing))\<close>, as a
  recursion over the index list; the rows come out in the order the loop appends them.
  \<^verbatim>\<open>sequences[i]\<close> raises IndexError out of range; \<^verbatim>\<open>np.pad\<close> raises ValueError on a
  negative pad width, that is when the sequence is longer than \<^verbatim>\<open>max_text_len\<close>.
\<close>

fun pad_loop :: "int list list \<Rightarrow> nat \<Rightarrow> nat list \<Rightarrow> error + int list list" where
  "pad_loop sequences max_text_len [] = Inr []"
| "pad_loop sequences max_text_len (i # ids) =
     (if length sequences \<le> i then Inl IndexError
      else let text = sequences ! i in
        if max_text_len < length text then Inl ValueError
        else (case pad_loop sequences max_text_len ids of
                Inl e \<Rightarrow> Inl e
              | Inr texts \<Rightarrow> Inr (np_pad_right text (max_text_len - length text) # texts)))"

text \<open>
  \<^verbatim>\<open>np.stack\<close> raises ValueError on an empty list and on rows of different shapes.
\<close>

definition np_stack :: "int list list \<Rightarrow> error + int list list" where
  "np_stack rows =
     (case rows of
        [] \<Rightarrow> Inl ValueError
      | r # rs \<Rightarrow> if list_all (\<lambda>r'. length r' = length r) rs then Inr rows
                  else Inl ValueError)"

text \<open>
  \<^verbatim>\<open>pad_sequences\<close> returns \<^verbatim>\<open>(texts, text_lengths, ids_sorted_decreasing)\<close>.
  \<^verbatim>\<open>text_lengths[0]\<close> raises IndexError on an empty tensor.
\<close>

definition pad_sequences ::
  "sorter \<Rightarrow> int list list \<Rightarrow> error + (int list list \<times> nat list \<times> nat list)" where
  "pad_sequences srt sequences =
     (case srt (map length sequences) of (text_lengths, ids_sorted_decreasing) \<Rightarrow>
        (case text_lengths of
           [] \<Rightarrow> Inl IndexError
         | max_text_len # _ \<Rightarrow>
             (case pad_loop sequences max_text_len ids_sorted_decreasing of
                Inl e \<Rightarrow> Inl e
              | Inr texts \<Rightarrow>
                  (case np_stack texts of
                     Inl e \<Rightarrow> Inl e
                   | Inr stacked \<Rightarrow> Inr (stacked, text_lengths, ids_sorted_decreasing)))))"

text \<open>
  \<^verbatim>\<open>prepare_input_sequence\<close>: every text goes through the encoder
  \<^verbatim>\<open>text_to_sequence(text, speaker_id, ['basic_cleaners'])\<close>, a collaborator taken as a
  parameter, and the sequences are packed. The conversions \<^verbatim>\<open>.long()\<close> and \<^verbatim>\<open>.int()\<close>
  change no value.
\<close>

type_synonym pystr = "nat list"

type_synonym encoder = "pystr \<Rightarrow> int \<Rightarrow> string list \<Rightarrow> int list"

definition prepare_input_sequence ::
  "sorter \<Rightarrow> encoder \<Rightarrow> pystr list \<Rightarrow> int \<Rightarrow>
     error + (int list list \<times> nat list \<times> nat list)" where
  "prepare_input_sequence srt text_to_sequence texts speaker_id =
     pad_sequences srt
       (map (\<lambda>text. text_to_sequence text speaker_id [''basic_cleaners'']) texts)"

section \<open>The result unpacker: the end of \<^verbatim>\<open>main\<close>\<close>

text \<open>
  A slice \<^verbatim>\<open>xs[:n]\<close>: a stop beyond the end is clamped to the end, a negative stop counts
  from the end (and is clamped to the start). No slice raises.
\<close>

definition py_slice_to :: "'a list \<Rightarrow> int \<Rightarrow> 'a list" where
  "py_slice_to xs n =
     (if 0 \<le> n then take (nat n) xs else take (length xs - nat (- n)) xs)"

text \<open>
  A mel is a matrix, channels by frames; \<^verbatim>\<open>mel[:, :length]\<close> keeps every channel and
  slices the frames.
\<close>

definition trim_mel :: "'a list list \<Rightarrow> int \<Rightarrow> 'a list list" where
  "trim_mel mel len = map (\<lambda>row. py_slice_to row len) mel"

text \<open>
  \<^verbatim>\<open>[mel[:, :length] for mel, length in zip(mels, mel_lengths)]\<close>; \<^verbatim>\<open>zip\<close> stops at the
  shorter of the two.
\<close>

definition trim_mels :: "'a list list list \<Rightarrow> int list \<Rightarrow> 'a list list list" where
  "trim_mels mels mel_lengths = map (\<lambda>(mel, len). trim_mel mel len) (zip mels mel_lengths)"

text \<open>\<^verbatim>\<open>list.index(x)\<close>: the first position of \<open>x\<close>, ValueError when there is none.\<close>

fun py_index :: "nat list \<Rightarrow> nat \<Rightarrow> error + nat" where
  "py_index [] x = Inl ValueError"
| "py_index (y # ys) x =
     (if y = x then Inr 0
      else (case py_index ys x of Inl e \<Rightarrow> Inl e | Inr n \<Rightarrow> Inr (Suc n)))"

text \<open>
  \<^verbatim>\<open>[mels[ids.index(i)] for i in range(len(ids))]\<close>, the comprehension as a recursion
  over the range; \<^verbatim>\<open>mels[j]\<close> raises IndexError out of range.
\<close>

fun recover_loop :: "'b list \<Rightarrow> nat list \<Rightarrow> nat list \<Rightarrow> error + 'b list" where
  "recover_loop mels ids [] = Inr []"
| "recover_loop mels ids (i # rest) =
     (case py_index ids i of
        Inl e \<Rightarrow> Inl e
      | Inr j \<Rightarrow>
          if length mels \<le> j then Inl IndexError
          else (case recover_loop mels ids rest of
                  Inl e \<Rightarrow> Inl e
                | Inr out \<Rightarrow> Inr (mels ! j # out)))"

definition recover_order :: "'b list \<Rightarrow> nat list \<Rightarrow> error + 'b list" where
  "recover_order mels ids = recover_loop mels ids [0..<length ids]"

text \<open>
  For stating where a row goes: the position of \<open>x\<close> in \<open>ids\<close> as a number (the length
  of the list when \<open>x\<close> does not occur).
\<close>

definition position_of :: "nat list \<Rightarrow> nat \<Rightarrow> nat" where
  "position_of ids x = (case py_index ids x of Inl e \<Rightarrow> length ids | Inr p \<Rightarrow> p)"

text \<open>Lines 187 to 189 of \<^verbatim>\<open>main\<close>: trim every row, then restore the original order.\<close>

definition unpack ::
  "'a list list list \<Rightarrow> int list \<Rightarrow> nat list \<Rightarrow> error + 'a list list list" where
  "unpack mels mel_lengths ids_sorted_decreasing =
     recover_order (trim_mels mels mel_lengths) ids_sorted_decreasing"





text \<open>
  The path from the encoded sequences to the ordered outputs: pack, one call of the
  engine \<^verbatim>\<open>model.infer(sequences, text_lengths)\<close> (a parameter: it returns the mels and
  their lengths, or raises), unpack.
\<close>

type_synonym 'a engine =
  "int list list \<Rightarrow> nat list \<Rightarrow> error + ('a list list list \<times> int list)"

definition pack_infer_unpack ::
  "sorter \<Rightarrow> 'a engine \<Rightarrow> int list list \<Rightarrow> error + 'a list list list" where
  "pack_infer_unpack srt infer sequences =
     (case pad_sequences srt sequences of
        Inl e \<Rightarrow> Inl e
      | Inr (texts, text_lengths, ids_sorted_decreasing) \<Rightarrow>
          (case infer texts text_lengths of
             Inl e \<Rightarrow> Inl e
           | Inr (mels, mel_lengths) \<Rightarrow> unpack mels mel_lengths ids_sorted_decreasing))"

text \<open>
  An engine for tests: every row of the batch comes back unchanged, as a mel of one
  channel, with the row's true length as its valid length.
\<close>

definition echo_engine :: "int engine" where
  "echo_engine texts text_lengths = Inr (map (\<lambda>row. [row]) texts, map int text_lengths)"

section \<open>Reading the input: lines 158 to 167 of \<^verbatim>\<open>main\<close>\<close>

text \<open>
  A Python string is a list of code points. \<^verbatim>\<open>str.strip()\<close> removes the white space of
  both ends; \<open>py_isspace\<close> lists the code points Python takes for white space.
\<close>

definition py_isspace :: "nat \<Rightarrow> bool" where
  "py_isspace c =
     ((9 \<le> c \<and> c \<le> 13) \<or> (28 \<le> c \<and> c \<le> 32) \<or> c = 133 \<or> c = 160 \<or> c = 5760 \<or>
      (8192 \<le> c \<and> c \<le> 8202) \<or> c = 8232 \<or> c = 8233 \<or> c = 8239 \<or> c = 8287 \<or>
      c = 12288)"

definition strip :: "pystr \<Rightarrow> pystr" where
  "strip s = rev (dropWhile py_isspace (rev (dropWhile py_isspace s)))"

text \<open>The slice \<^verbatim>\<open>sentences[1::2]\<close>.\<close>

fun slice_1_step_2 :: "'a list \<Rightarrow> 'a list" where
  "slice_1_step_2 [] = []"
| "slice_1_step_2 [x] = []"
| "slice_1_step_2 (x # y # zs) = y # slice_1_step_2 zs"

text \<open>
  \<open>readlines enc\<close> stands for \<^verbatim>\<open>open(args.input_file, encoding=enc).readlines()\<close>, with
  \<open>None\<close> for the default encoding. Only a UnicodeDecodeError leads to the second
  attempt, with \<^verbatim>\<open>gbk\<close>.
\<close>

definition read_sentences :: "(string option \<Rightarrow> error + pystr list) \<Rightarrow> error + pystr list" where
  "read_sentences readlines =
     (case readlines None of
        Inr ls \<Rightarrow> Inr (map strip ls)
      | Inl e \<Rightarrow>
          if e = UnicodeDecodeError
          then (case readlines (Some ''gbk'') of
                  Inr ls \<Rightarrow> Inr (map strip ls)
                | Inl e' \<Rightarrow> Inl e')
          else Inl e)"

definition texts_of_lines :: "pystr list \<Rightarrow> pystr list" where
  "texts_of_lines ls = slice_1_step_2 (map strip ls)"

text \<open>The sequences the encoder produces, one call per text, in order.\<close>

definition encode_lines :: "encoder \<Rightarrow> int \<Rightarrow> pystr list \<Rightarrow> int list list" where
  "encode_lines text_to_sequence speaker_id ls =
     map (\<lambda>text. text_to_sequence text speaker_id [''basic_cleaners'']) (texts_of_lines ls)"

section \<open>The timing wrapper: \<^verbatim>\<open>MeasureTime\<close>\<close>

text \<open>
  The world the wrapper acts on: the reading of \<^verbatim>\<open>time.perf_counter()\<close>, in ticks, and
  the dictionaries of the program by reference (\<^verbatim>\<open>MeasureTime\<close> keeps a reference to the
  dictionary of \<^verbatim>\<open>main\<close> and writes into it). An action returns a value or raises, and
  leaves a new world.
\<close>

record world =
  clock :: int
  dicts :: "nat \<Rightarrow> (string \<rightharpoonup> int)"

type_synonym 'a action = "world \<Rightarrow> (error + 'a) \<times> world"

text \<open>
  The object: \<^verbatim>\<open>__init__\<close> sets \<^verbatim>\<open>measurements\<close> and \<^verbatim>\<open>key\<close>; \<^verbatim>\<open>t0\<close> exists only
  after \<^verbatim>\<open>__enter__\<close>.
\<close>

record measure_time =
  measurements :: nat
  key :: string
  t0 :: "int option"

definition MeasureTime_init :: "nat \<Rightarrow> string \<Rightarrow> measure_time" where
  "MeasureTime_init m k = \<lparr>measurements = m, key = k, t0 = None\<rparr>"

text \<open>
  \<^verbatim>\<open>torch.cuda.synchronize()\<close> is a call of the library, the parameter \<open>synchronize\<close>: it
  may take time, and it may raise.
\<close>

definition MeasureTime_enter ::
  "unit action \<Rightarrow> measure_time \<Rightarrow> world \<Rightarrow> (error + measure_time) \<times> world" where
  "MeasureTime_enter synchronize self w =
     (case synchronize w of
        (Inl e, w') \<Rightarrow> (Inl e, w')
      | (Inr _, w') \<Rightarrow> (Inr (self\<lparr>t0 := Some (clock w')\<rparr>), w'))"

text \<open>
  \<^verbatim>\<open>__exit__\<close> returns None, which is false: the exception of the block, if any, is
  not suppressed.
\<close>

definition MeasureTime_exit ::
  "unit action \<Rightarrow> measure_time \<Rightarrow> error option \<Rightarrow> world \<Rightarrow> (error + bool) \<times> world" where
  "MeasureTime_exit synchronize self exc w =
     (case synchronize w of
        (Inl e, w') \<Rightarrow> (Inl e, w')
      | (Inr _, w') \<Rightarrow>
          (case t0 self of
             None \<Rightarrow> (Inl AttributeError, w')
           | Some t \<Rightarrow>
               (Inr False,
                w'\<lparr>dicts := (dicts w')
                      (measurements self :=
                         (dicts w' (measurements self))(key self \<mapsto> clock w' - t))\<rparr>)))"

text \<open>
  The \<^verbatim>\<open>with\<close> statement of Python. When \<^verbatim>\<open>__enter__\<close> raises, neither the block nor
  \<^verbatim>\<open>__exit__\<close> runs. Otherwise the block runs and then \<^verbatim>\<open>__exit__\<close>, with the exception
  of the block if it raised; this exception is raised again unless \<^verbatim>\<open>__exit__\<close> returns
  a true value, and an exception of \<^verbatim>\<open>__exit__\<close> itself replaces it. The result is
  \<open>Some v\<close> when the block returned \<open>v\<close>, \<open>None\<close> when its exception was suppressed.
\<close>

definition with_stmt ::
  "('cm \<Rightarrow> world \<Rightarrow> (error + 'cm) \<times> world) \<Rightarrow>
   ('cm \<Rightarrow> error option \<Rightarrow> world \<Rightarrow> (error + bool) \<times> world) \<Rightarrow>
   'cm \<Rightarrow> 'a action \<Rightarrow> 'a option action" where
  "with_stmt enter exit mgr body w =
     (case enter mgr w of
        (Inl e, w1) \<Rightarrow> (Inl e, w1)
      | (Inr mgr', w1) \<Rightarrow>
          (case body w1 of
             (Inr v, w2) \<Rightarrow>
               (case exit mgr' None w2 of
                  (Inl e, w3) \<Rightarrow> (Inl e, w3)
                | (Inr _, w3) \<Rightarrow> (Inr (Some v), w3))
           | (Inl e, w2) \<Rightarrow>
               (case exit mgr' (Some e) w2 of
                  (Inl e', w3) \<Rightarrow> (Inl e', w3)
                | (Inr suppress, w3) \<Rightarrow>
                    if suppress then (Inr None, w3) else (Inl e, w3))))"

text \<open>\<^verbatim>\<open>torch.no_grad()\<close> touches nothing of this world and suppresses nothing.\<close>

definition no_grad_enter :: "unit \<Rightarrow> world \<Rightarrow> (error + unit) \<times> world" where
  "no_grad_enter u w = (Inr u, w)"

definition no_grad_exit :: "unit \<Rightarrow> error option \<Rightarrow> world \<Rightarrow> (error + bool) \<times> world" where
  "no_grad_exit u exc w = (Inr False, w)"

text \<open>
  Lines 175 and 176 of \<^verbatim>\<open>main\<close>:
  \<^verbatim>\<open>with torch.no_grad(), MeasureTime(measurements, "tacotron2_time"): ... model.infer(...)\<close>.
\<close>

definition timed_infer :: "unit action \<Rightarrow> nat \<Rightarrow> 'a action \<Rightarrow> 'a option option action" where
  "timed_infer synchronize m infer =
     with_stmt no_grad_enter no_grad_exit ()
       (with_stmt (MeasureTime_enter synchronize) (MeasureTime_exit synchronize)
          (MeasureTime_init m ''tacotron2_time'') infer)"

text \<open>
  For evaluating the wrapper on a concrete run: a world whose clock reads 10 and whose
  dictionaries are empty, a synchronisation that takes one tick, an engine call that
  raises after five ticks and one that returns after five ticks.
\<close>

definition start_world :: world where
  "start_world = \<lparr>clock = 10, dicts = (\<lambda>r. Map.empty)\<rparr>"

definition tick_synchronize :: "unit action" where
  "tick_synchronize w = (Inr (), w\<lparr>clock := clock w + 1\<rparr>)"

definition failing_infer :: "nat action" where
  "failing_infer w = (Inl RuntimeError, w\<lparr>clock := clock w + 5\<rparr>)"

definition returning_infer :: "nat action" where
  "returning_infer w = (Inr 42, w\<lparr>clock := clock w + 5\<rparr>)"

text \<open>
  A synchronisation that succeeds while the clock reads less than 15 and raises from
  then on: with \<open>start_world\<close> it succeeds in \<^verbatim>\<open>__enter__\<close> and raises in \<^verbatim>\<open>__exit__\<close>,
  as \<^verbatim>\<open>torch.cuda.synchronize()\<close> does once the device is in an error state.
\<close>

definition raising_synchronize :: "unit action" where
  "raising_synchronize w =
     (if clock w < 15 then (Inr (), w\<lparr>clock := clock w + 1\<rparr>) else (Inl RuntimeError, w))"

section \<open>What the contract of the sort gives\<close>

lemma sort_ok_unfold:
  assumes "torch_sort_desc_ok srt xs" and "srt xs = (vals, ids)"
  shows "distinct ids" and "set ids = {0..<length xs}"
    and "vals = map (\<lambda>i. xs ! i) ids" and "sorted (rev vals)"
  using assms unfolding torch_sort_desc_ok_def by auto

lemma sort_ok_distinct:
  assumes "torch_sort_desc_ok srt xs"
  shows "distinct (snd (srt xs))"
  using sort_ok_unfold(1) [OF assms, of "fst (srt xs)" "snd (srt xs)"] by simp

lemma sort_ok_set:
  assumes "torch_sort_desc_ok srt xs"
  shows "set (snd (srt xs)) = {0..<length xs}"
  using sort_ok_unfold(2) [OF assms, of "fst (srt xs)" "snd (srt xs)"] by simp

lemma sort_ok_vals:
  assumes "torch_sort_desc_ok srt xs"
  shows "fst (srt xs) = map (\<lambda>i. xs ! i) (snd (srt xs))"
  using sort_ok_unfold(3) [OF assms, of "fst (srt xs)" "snd (srt xs)"] by simp

lemma sort_ok_sorted:
  assumes "torch_sort_desc_ok srt xs"
  shows "sorted (rev (fst (srt xs)))"
  using sort_ok_unfold(4) [OF assms, of "fst (srt xs)" "snd (srt xs)"] by simp

lemma sort_ok_length_ids:
  assumes "torch_sort_desc_ok srt xs"
  shows "length (snd (srt xs)) = length xs"
proof -
  have "length (snd (srt xs)) = card (set (snd (srt xs)))"
    using sort_ok_distinct [OF assms] by (simp add: distinct_card)
  also have "\<dots> = length xs" by (simp add: sort_ok_set [OF assms])
  finally show ?thesis .
qed

lemma sort_ok_set_vals:
  assumes "torch_sort_desc_ok srt xs"
  shows "set (fst (srt xs)) = set xs"
proof -
  have "set (fst (srt xs)) = (\<lambda>i. xs ! i) ` {0..<length xs}"
    by (simp add: sort_ok_vals [OF assms] sort_ok_set [OF assms])
  also have "\<dots> = set xs"
    by (metis list.set_map map_nth set_upt)
  finally show ?thesis .
qed

lemma sorted_rev_hd_ge:
  assumes "sorted (rev vs)" and "v \<in> set vs"
  shows "v \<le> hd vs"
proof (cases vs)
  case Nil
  with assms(2) show ?thesis by simp
next
  case (Cons a as)
  with assms(1) have "\<forall>x\<in>set as. x \<le> a" by (simp add: sorted_append)
  with assms(2) Cons show ?thesis by auto
qed

lemma sort_ok_hd_Max:
  assumes ok: "torch_sort_desc_ok srt xs" and ne: "xs \<noteq> []"
  shows "fst (srt xs) \<noteq> []" and "hd (fst (srt xs)) = Max (set xs)"
proof -
  have sv: "set (fst (srt xs)) = set xs" by (rule sort_ok_set_vals [OF ok])
  with ne show nv: "fst (srt xs) \<noteq> []" by auto
  have "hd (fst (srt xs)) \<in> set xs" using nv sv hd_in_set by blast
  moreover have "\<And>v. v \<in> set xs \<Longrightarrow> v \<le> hd (fst (srt xs))"
    using sorted_rev_hd_ge [OF sort_ok_sorted [OF ok]] sv by simp
  ultimately have "Max (set xs) = hd (fst (srt xs))"
    by (intro Max_eqI) auto
  then show "hd (fst (srt xs)) = Max (set xs)" by simp
qed

section \<open>The packer on a batch that is not empty\<close>

lemma pad_loop_ok:
  assumes "\<forall>i\<in>set ids. i < length sequences \<and> length (sequences ! i) \<le> m"
  shows "pad_loop sequences m ids =
           Inr (map (\<lambda>i. np_pad_right (sequences ! i) (m - length (sequences ! i))) ids)"
  using assms by (induction ids) (auto simp: Let_def)

lemma np_stack_ok:
  assumes "rows \<noteq> []" and "\<forall>r\<in>set rows. length r = m"
  shows "np_stack rows = Inr rows"
  using assms by (cases rows) (auto simp: np_stack_def list_all_iff)

lemma pad_sequences_ok:
  assumes ok: "torch_sort_desc_ok srt (map length sequences)" and ne: "sequences \<noteq> []"
  shows "pad_sequences srt sequences =
           Inr (map (\<lambda>i. np_pad_right (sequences ! i)
                            (Max (set (map length sequences)) - length (sequences ! i)))
                    (snd (srt (map length sequences))),
                map (\<lambda>i. length (sequences ! i)) (snd (srt (map length sequences))),
                snd (srt (map length sequences)))"
proof -
  let ?xs = "map length sequences"
  let ?m = "Max (set ?xs)"
  obtain vals ids where s: "srt ?xs = (vals, ids)" by (cases "srt ?xs")
  from ne have xne: "?xs \<noteq> []" by simp
  from sort_ok_hd_Max [OF ok xne] s have vne: "vals \<noteq> []" and hd: "hd vals = ?m"
    by simp_all
  then obtain vs where vals: "vals = ?m # vs" by (cases vals) auto
  have bound: "\<forall>i\<in>set ids. i < length sequences \<and> length (sequences ! i) \<le> ?m"
  proof
    fix i assume "i \<in> set ids"
    with sort_ok_set [OF ok] s have i: "i < length sequences" by simp
    then have "sequences ! i \<in> set sequences" by simp
    then have "length (sequences ! i) \<in> set ?xs" by simp
    then have "length (sequences ! i) \<le> ?m" by (intro Max_ge) auto
    with i show "i < length sequences \<and> length (sequences ! i) \<le> ?m" by simp
  qed
  let ?rows = "map (\<lambda>i. np_pad_right (sequences ! i) (?m - length (sequences ! i))) ids"
  have loop: "pad_loop sequences ?m ids = Inr ?rows" by (rule pad_loop_ok [OF bound])
  from sort_ok_length_ids [OF ok] s ne have "ids \<noteq> []" by auto
  then have rne: "?rows \<noteq> []" by simp
  have "\<forall>r\<in>set ?rows. length r = ?m" using bound by (auto simp: np_pad_right_def)
  with rne have st: "np_stack ?rows = Inr ?rows" by (rule np_stack_ok)
  have v: "vals = map (\<lambda>i. length (sequences ! i)) ids"
  proof -
    from sort_ok_vals [OF ok] s have "vals = map (\<lambda>i. ?xs ! i) ids" by simp
    also have "\<dots> = map (\<lambda>i. length (sequences ! i)) ids"
      using bound by (intro map_cong) auto
    finally show ?thesis .
  qed
  have "pad_sequences srt sequences = Inr (?rows, vals, ids)"
    unfolding pad_sequences_def s using vals loop st by simp
  with v s show ?thesis by simp
qed

section \<open>The unpacker on a permutation\<close>

lemma py_index_ex:
  assumes "x \<in> set ids"
  shows "\<exists>p. py_index ids x = Inr p \<and> p < length ids \<and> ids ! p = x"
  using assms by (induction ids) auto

lemma py_index_mem:
  assumes "x \<in> set ids"
  shows "py_index ids x = Inr (position_of ids x) \<and> position_of ids x < length ids
         \<and> ids ! position_of ids x = x"
proof -
  from py_index_ex [OF assms] obtain p
    where "py_index ids x = Inr p" "p < length ids" "ids ! p = x" by blast
  then show ?thesis by (simp add: position_of_def)
qed

lemma position_of_nth:
  assumes "distinct ids" and "p < length ids"
  shows "position_of ids (ids ! p) = p"
proof -
  have m: "ids ! p \<in> set ids" using assms(2) by simp
  from py_index_mem [OF m] have q: "position_of ids (ids ! p) < length ids"
    and e: "ids ! position_of ids (ids ! p) = ids ! p" by simp_all
  from assms q e show ?thesis by (simp add: nth_eq_iff_index_eq)
qed

lemma recover_loop_ok:
  assumes "\<forall>i\<in>set is. i \<in> set ids" and "length ids \<le> length rows"
  shows "recover_loop rows ids is = Inr (map (\<lambda>i. rows ! position_of ids i) is)"
  using assms(1)
proof (induction "is")
  case Nil
  then show ?case by simp
next
  case (Cons i rest)
  then have m: "i \<in> set ids" by simp
  from py_index_mem [OF m] assms(2)
  have a: "py_index ids i = Inr (position_of ids i)" and b: "position_of ids i < length rows"
    by simp_all
  from Cons have "recover_loop rows ids rest = Inr (map (\<lambda>i. rows ! position_of ids i) rest)"
    by simp
  with a b show ?case by simp
qed

lemma recover_order_ok:
  assumes "set ids = {0..<length ids}" and "length ids \<le> length rows"
  shows "recover_order rows ids = Inr (map (\<lambda>k. rows ! position_of ids k) [0..<length ids])"
  unfolding recover_order_def using assms by (intro recover_loop_ok) auto

lemma trim_mels_nth:
  assumes "p < length mels" and "p < length mel_lengths"
  shows "trim_mels mels mel_lengths ! p = trim_mel (mels ! p) (mel_lengths ! p)"
  using assms by (simp add: trim_mels_def)

lemma length_trim_mels:
  "length (trim_mels mels mel_lengths) = min (length mels) (length mel_lengths)"
  by (simp add: trim_mels_def)

lemma unpack_ok:
  assumes perm: "set ids = {0..<length ids}"
    and lm: "length mels = length ids" and ll: "length mel_lengths = length ids"
  shows "unpack mels mel_lengths ids =
           Inr (map (\<lambda>k. trim_mel (mels ! position_of ids k) (mel_lengths ! position_of ids k))
                    [0..<length ids])"
proof -
  have "recover_order (trim_mels mels mel_lengths) ids =
          Inr (map (\<lambda>k. trim_mels mels mel_lengths ! position_of ids k) [0..<length ids])"
    using perm lm ll by (intro recover_order_ok) (simp_all add: length_trim_mels)
  moreover have "map (\<lambda>k. trim_mels mels mel_lengths ! position_of ids k) [0..<length ids]
      = map (\<lambda>k. trim_mel (mels ! position_of ids k) (mel_lengths ! position_of ids k))
            [0..<length ids]"
  proof (intro map_cong refl)
    fix k assume "k \<in> set [0..<length ids]"
    with perm have "k \<in> set ids" by simp
    from py_index_mem [OF this] have "position_of ids k < length ids" by simp
    with lm ll show "trim_mels mels mel_lengths ! position_of ids k =
        trim_mel (mels ! position_of ids k) (mel_lengths ! position_of ids k)"
      by (simp add: trim_mels_nth)
  qed
  ultimately show ?thesis by (simp add: unpack_def)
qed

section \<open>The end-to-end scenario\<close>

lemma sort_ok_241:
  assumes "torch_sort_desc_ok srt [2, 4, 1]"
  shows "srt [2, 4, 1] = ([4, 2, 1], [1, 0, 2])"
proof -
  obtain vals ids where s: "srt [2, 4, 1] = (vals, ids)" by (cases "srt [2, 4, 1]")
  note u = sort_ok_unfold [OF assms s]
  have d: "distinct ids" by (rule u(1))
  have e: "set ids = {0..<3}" using u(2) by (simp add: numeral_3_eq_3)
  have v: "vals = map (\<lambda>i. [2, 4, 1] ! i) ids" by (rule u(3))
  have so: "sorted (rev vals)" by (rule u(4))
  have "card (set ids) = 3" unfolding e by simp
  with d have len: "length ids = 3" by (simp add: distinct_card)
  then obtain a b c where ids: "ids = [a, b, c]"
    by (metis length_0_conv length_Suc_conv numeral_3_eq_3)
  from e ids have m: "a < 3" "b < 3" "c < 3" by auto
  from d ids have ne: "a \<noteq> b" "a \<noteq> c" "b \<noteq> c" by auto
  from so v ids have le: "[2, 4, 1::nat] ! c \<le> [2, 4, 1] ! b" "[2, 4, 1::nat] ! b \<le> [2, 4, 1] ! a"
    by (simp_all add: sorted_append)
  have a: "a = 0 \<or> a = 1 \<or> a = 2" using m(1) by arith
  have b: "b = 0 \<or> b = 1 \<or> b = 2" using m(2) by arith
  have c: "c = 0 \<or> c = 1 \<or> c = 2" using m(3) by arith
  from a b c ne le have "a = 1 \<and> b = 0 \<and> c = 2" by auto
  with ids v s show ?thesis by simp
qed

lemma pad_loop_scenario:
  "pad_loop [[1, 2], [1, 2, 3, 4], [1]] 4 [1, 0, 2] =
     Inr [[1, 2, 3, 4], [1, 2, 0, 0], [1, 0, 0, 0]]"
  by code_simp

lemma np_stack_scenario:
  "np_stack [[1, 2, 3, 4], [1, 2, 0, 0], [1, 0, 0, 0]] =
     Inr [[1, 2, 3, 4], [1, 2, 0, 0], [1, 0, 0, 0]]"
  by code_simp

lemma unpack_scenario:
  "unpack [[[1, 2, 3, 4]], [[1, 2, 0, 0]], [[1, 0, 0, 0::int]]] [4, 2, 1] [1, 0, 2] =
     Inr [[[1, 2]], [[1, 2, 3, 4]], [[1]]]"
  by code_simp

lemma echo_scenario:
  "echo_engine [[1, 2, 3, 4], [1, 2, 0, 0], [1, 0, 0, 0]] [4, 2, 1] =
     Inr ([[[1, 2, 3, 4]], [[1, 2, 0, 0]], [[1, 0, 0, 0]]], [4, 2, 1])"
  by (simp add: echo_engine_def)

text \<open>
  Claim C1. The three sequences \<open>[1,2]\<close>, \<open>[1,2,3,4]\<close>, \<open>[1]\<close> (lengths 2, 4, 1) are
  packed in the order of the original indices 1, 0, 2, with \<open>L_max = 4\<close>, the rows
  \<open>[1,2,3,4]\<close>, \<open>[1,2,0,0]\<close>, \<open>[1,0,0,0]\<close>, the lengths \<open>[4,2,1]\<close> and the permutation
  \<open>[1,0,2]\<close>; an engine that returns every row unchanged (as a mel of one channel) with
  the valid lengths \<open>[4,2,1]\<close> is unpacked to the original sequences in their original
  order. The lengths are distinct, so this holds for every sort that keeps the contract.
\<close>

theorem end_to_end_scenario:
  assumes "torch_sort_desc_ok srt [2, 4, 1]"
  shows "pad_sequences srt [[1, 2], [1, 2, 3, 4], [1]] =
           Inr ([[1, 2, 3, 4], [1, 2, 0, 0], [1, 0, 0, 0]], [4, 2, 1], [1, 0, 2])
       \<and> echo_engine [[1, 2, 3, 4], [1, 2, 0, 0], [1, 0, 0, 0]] [4, 2, 1] =
           Inr ([[[1, 2, 3, 4]], [[1, 2, 0, 0]], [[1, 0, 0, 0]]], [4, 2, 1])
       \<and> unpack [[[1, 2, 3, 4]], [[1, 2, 0, 0]], [[1, 0, 0, 0::int]]] [4, 2, 1] [1, 0, 2] =
           Inr [[[1, 2]], [[1, 2, 3, 4]], [[1]]]
       \<and> pack_infer_unpack srt echo_engine [[1, 2], [1, 2, 3, 4], [1]] =
           Inr [[[1, 2]], [[1, 2, 3, 4]], [[1]]]"
proof -
  have ml: "map length [[1, 2], [1, 2, 3, 4], [1::int]] = [2, 4, 1]" by simp
  have p: "pad_sequences srt [[1, 2], [1, 2, 3, 4], [1]] =
           Inr ([[1, 2, 3, 4], [1, 2, 0, 0], [1, 0, 0, 0]], [4, 2, 1], [1, 0, 2])"
    unfolding pad_sequences_def ml sort_ok_241 [OF assms]
    by (simp only: prod.case list.case sum.case pad_loop_scenario np_stack_scenario)
  have "pack_infer_unpack srt echo_engine [[1, 2], [1, 2, 3, 4], [1]] =
           Inr [[[1, 2]], [[1, 2, 3, 4]], [[1]]]"
    unfolding pack_infer_unpack_def p
    by (simp only: prod.case sum.case echo_scenario unpack_scenario)
  with p echo_scenario unpack_scenario show ?thesis by blast
qed

theorem end_to_end_scenario_witness:
  "torch_sort_desc_ok sort_desc_stable [2, 4, 1]
   \<and> pad_sequences sort_desc_stable [[1, 2], [1, 2, 3, 4], [1]] =
           Inr ([[1, 2, 3, 4], [1, 2, 0, 0], [1, 0, 0, 0]], [4, 2, 1], [1, 0, 2])
   \<and> pack_infer_unpack sort_desc_stable echo_engine [[1, 2], [1, 2, 3, 4], [1]] =
           Inr [[[1, 2]], [[1, 2, 3, 4]], [[1]]]"
proof -
  have h: "torch_sort_desc_ok sort_desc_stable [2, 4, 1]" by code_simp
  from end_to_end_scenario [OF h] h show ?thesis by blast
qed

section \<open>The rows of the padded batch\<close>

lemma np_pad_right_take: "take (length text) (np_pad_right text n) = text"
  by (simp add: np_pad_right_def)

lemma np_pad_right_drop: "drop (length text) (np_pad_right text n) = replicate n 0"
  by (simp add: np_pad_right_def)

lemma np_pad_right_length: "length (np_pad_right text n) = length text + n"
  by (simp add: np_pad_right_def)

lemma np_pad_right_nth_pad:
  assumes "length text \<le> j" and "j < length text + n"
  shows "np_pad_right text n ! j = 0"
  using assms by (simp add: np_pad_right_def nth_append)

lemma length_le_Max:
  assumes "i < length sequences"
  shows "length (sequences ! i) \<le> Max (set (map length sequences))"
proof -
  from assms have "sequences ! i \<in> set sequences" by simp
  then have "length (sequences ! i) \<in> set (map length sequences)" by simp
  then show ?thesis by (intro Max_ge) auto
qed

text \<open>
  Claim C2. For a list of sequences that is not empty, and a sort that keeps its
  contract, \<^verbatim>\<open>pad_sequences\<close> returns a rectangular batch: one row per sequence, every
  row of width \<open>L_max\<close>, the greatest input length. Row \<open>i\<close> holds the sequence of original
  index \<open>ids ! i\<close>: its first \<open>text_lengths ! i\<close> entries are that sequence, token for
  token, and every entry from there up to \<open>L_max\<close> is the pad value 0. The claim asks for
  sequences of length at least 1; the statement needs no such hypothesis.
\<close>

theorem pad_sequences_rows:
  assumes ne: "sequences \<noteq> []"
    and ok: "torch_sort_desc_ok srt (map length sequences)"
  shows "\<exists>texts text_lengths ids.
     pad_sequences srt sequences = Inr (texts, text_lengths, ids) \<and>
     length texts = length sequences \<and> length text_lengths = length sequences \<and>
     length ids = length sequences \<and> distinct ids \<and> set ids = {0..<length sequences} \<and>
     (\<forall>i<length sequences.
        text_lengths ! i = length (sequences ! (ids ! i)) \<and>
        length (texts ! i) = Max (set (map length sequences)) \<and>
        take (text_lengths ! i) (texts ! i) = sequences ! (ids ! i) \<and>
        (\<forall>j. text_lengths ! i \<le> j \<and> j < Max (set (map length sequences))
               \<longrightarrow> texts ! i ! j = 0))"
proof -
  let ?xs = "map length sequences"
  let ?m = "Max (set ?xs)"
  let ?ids = "snd (srt ?xs)"
  let ?texts = "map (\<lambda>i. np_pad_right (sequences ! i) (?m - length (sequences ! i))) ?ids"
  let ?lens = "map (\<lambda>i. length (sequences ! i)) ?ids"
  have p: "pad_sequences srt sequences = Inr (?texts, ?lens, ?ids)"
    by (rule pad_sequences_ok [OF ok ne])
  have len: "length ?ids = length sequences" using sort_ok_length_ids [OF ok] by simp
  have d: "distinct ?ids" by (rule sort_ok_distinct [OF ok])
  have st: "set ?ids = {0..<length sequences}" using sort_ok_set [OF ok] by simp
  have rows: "\<forall>i<length sequences.
        ?lens ! i = length (sequences ! (?ids ! i)) \<and>
        length (?texts ! i) = ?m \<and>
        take (?lens ! i) (?texts ! i) = sequences ! (?ids ! i) \<and>
        (\<forall>j. ?lens ! i \<le> j \<and> j < ?m \<longrightarrow> ?texts ! i ! j = 0)"
  proof (intro allI impI)
    fix i assume i: "i < length sequences"
    with len have il: "i < length ?ids" by simp
    then have "?ids ! i \<in> set ?ids" by simp
    with st have b: "?ids ! i < length sequences" by simp
    have le: "length (sequences ! (?ids ! i)) \<le> ?m" by (rule length_le_Max [OF b])
    have t: "?texts ! i = np_pad_right (sequences ! (?ids ! i)) (?m - length (sequences ! (?ids ! i)))"
      using il by simp
    have l: "?lens ! i = length (sequences ! (?ids ! i))" using il by simp
    have "\<forall>j. ?lens ! i \<le> j \<and> j < ?m \<longrightarrow> ?texts ! i ! j = 0"
      unfolding t l using le by (auto intro: np_pad_right_nth_pad)
    moreover have "length (?texts ! i) = ?m"
      unfolding t using le by (simp add: np_pad_right_length)
    moreover have "take (?lens ! i) (?texts ! i) = sequences ! (?ids ! i)"
      unfolding t l by (rule np_pad_right_take)
    ultimately show "?lens ! i = length (sequences ! (?ids ! i)) \<and>
        length (?texts ! i) = ?m \<and>
        take (?lens ! i) (?texts ! i) = sequences ! (?ids ! i) \<and>
        (\<forall>j. ?lens ! i \<le> j \<and> j < ?m \<longrightarrow> ?texts ! i ! j = 0)"
      using l by blast
  qed
  have "pad_sequences srt sequences = Inr (?texts, ?lens, ?ids) \<and>
     length ?texts = length sequences \<and> length ?lens = length sequences \<and>
     length ?ids = length sequences \<and> distinct ?ids \<and> set ?ids = {0..<length sequences} \<and>
     (\<forall>i<length sequences.
        ?lens ! i = length (sequences ! (?ids ! i)) \<and>
        length (?texts ! i) = ?m \<and>
        take (?lens ! i) (?texts ! i) = sequences ! (?ids ! i) \<and>
        (\<forall>j. ?lens ! i \<le> j \<and> j < ?m \<longrightarrow> ?texts ! i ! j = 0))"
    using p len d st rows by simp
  then show ?thesis by blast
qed

theorem pad_sequences_rows_witness:
  "[[7], [8, 9, 6], [5, 4]] \<noteq> ([] :: int list list) \<and>
   torch_sort_desc_ok sort_desc_stable (map length [[7], [8, 9, 6], [5, 4::int]]) \<and>
   (\<exists>texts text_lengths ids.
     pad_sequences sort_desc_stable [[7], [8, 9, 6], [5, 4]] = Inr (texts, text_lengths, ids) \<and>
     length texts = length [[7], [8, 9, 6], [5, 4::int]] \<and>
     length text_lengths = length [[7], [8, 9, 6], [5, 4::int]] \<and>
     length ids = length [[7], [8, 9, 6], [5, 4::int]] \<and> distinct ids \<and>
     set ids = {0..<length [[7], [8, 9, 6], [5, 4::int]]} \<and>
     (\<forall>i<length [[7], [8, 9, 6], [5, 4::int]].
        text_lengths ! i = length ([[7], [8, 9, 6], [5, 4::int]] ! (ids ! i)) \<and>
        length (texts ! i) = Max (set (map length [[7], [8, 9, 6], [5, 4::int]])) \<and>
        take (text_lengths ! i) (texts ! i) = [[7], [8, 9, 6], [5, 4]] ! (ids ! i) \<and>
        (\<forall>j. text_lengths ! i \<le> j \<and> j < Max (set (map length [[7], [8, 9, 6], [5, 4::int]]))
               \<longrightarrow> texts ! i ! j = 0)))"
proof -
  have n: "[[7], [8, 9, 6], [5, 4]] \<noteq> ([] :: int list list)" by simp
  have h: "torch_sort_desc_ok sort_desc_stable (map length [[7], [8, 9, 6], [5, 4::int]])"
    by code_simp
  from pad_sequences_rows [OF n h] n h show ?thesis by blast
qed

section \<open>Round trip, ties and the boundary cases of the packer\<close>

lemma position_of_perm:
  assumes "set ids = {0..<n}" and "length ids = n" and "k < n"
  shows "position_of ids k < n" and "ids ! position_of ids k = k"
proof -
  from assms have "k \<in> set ids" by simp
  from py_index_mem [OF this] assms(2)
  show "position_of ids k < n" and "ids ! position_of ids k = k" by simp_all
qed

lemma pack_row_of_input:
  assumes ne: "sequences \<noteq> []"
    and ok: "torch_sort_desc_ok srt (map length sequences)"
    and k: "k < length sequences"
  shows "position_of (snd (srt (map length sequences))) k < length sequences"
    and "snd (srt (map length sequences)) ! position_of (snd (srt (map length sequences))) k = k"
    and "map (\<lambda>i. length (sequences ! i)) (snd (srt (map length sequences)))
           ! position_of (snd (srt (map length sequences))) k = length (sequences ! k)"
    and "map (\<lambda>i. np_pad_right (sequences ! i)
                     (Max (set (map length sequences)) - length (sequences ! i)))
             (snd (srt (map length sequences)))
           ! position_of (snd (srt (map length sequences))) k
         = np_pad_right (sequences ! k) (Max (set (map length sequences)) - length (sequences ! k))"
proof -
  let ?ids = "snd (srt (map length sequences))"
  have len: "length ?ids = length sequences" using sort_ok_length_ids [OF ok] by simp
  have st: "set ?ids = {0..<length sequences}" using sort_ok_set [OF ok] by simp
  note q = position_of_perm [OF st len k]
  show "position_of ?ids k < length sequences" by (rule q(1))
  show "?ids ! position_of ?ids k = k" by (rule q(2))
  show "map (\<lambda>i. length (sequences ! i)) ?ids ! position_of ?ids k = length (sequences ! k)"
    using q len by simp
  show "map (\<lambda>i. np_pad_right (sequences ! i)
                     (Max (set (map length sequences)) - length (sequences ! i))) ?ids
           ! position_of ?ids k
         = np_pad_right (sequences ! k) (Max (set (map length sequences)) - length (sequences ! k))"
    using q len by simp
qed

lemma unpack_after_pack:
  assumes ok: "torch_sort_desc_ok srt (map length sequences)"
    and lm: "length mels = length sequences"
    and ll: "length mel_lengths = length sequences"
  shows "unpack mels mel_lengths (snd (srt (map length sequences))) =
       Inr (map (\<lambda>k. trim_mel (mels ! position_of (snd (srt (map length sequences))) k)
                              (mel_lengths ! position_of (snd (srt (map length sequences))) k))
                [0..<length sequences])"
proof -
  let ?ids = "snd (srt (map length sequences))"
  have len: "length ?ids = length sequences" using sort_ok_length_ids [OF ok] by simp
  have st: "set ?ids = {0..<length ?ids}" using sort_ok_set [OF ok] len by simp
  show ?thesis using unpack_ok [OF st, of mels mel_lengths] lm ll len by simp
qed

text \<open>
  Claim C3. For every batch of \<open>N \<ge> 1\<close> sequences, whatever their lengths (equal ones
  included), and every sort that keeps its contract: reading the permutation \<open>ids\<close> of
  the packer at the position that \<^verbatim>\<open>ids.index(k)\<close> finds gives \<open>k\<close> back, for every
  \<open>k\<close> of \<open>[0..N-1]\<close>, and finding the position of \<open>ids ! p\<close> gives \<open>p\<close> back; the row at
  the position found for \<open>k\<close> holds input \<open>k\<close>; and for any engine output of \<open>N\<close> rows and
  \<open>N\<close> lengths the unpacker puts at output position \<open>k\<close> the trimmed row of that position.
\<close>

theorem roundtrip_identity:
  assumes ne: "sequences \<noteq> []"
    and ok: "torch_sort_desc_ok srt (map length sequences)"
    and lm: "length mels = length sequences"
    and ll: "length mel_lengths = length sequences"
  shows "\<exists>texts text_lengths ids.
     pad_sequences srt sequences = Inr (texts, text_lengths, ids) \<and>
     map (\<lambda>k. ids ! position_of ids k) [0..<length sequences] = [0..<length sequences] \<and>
     map (\<lambda>p. position_of ids (ids ! p)) [0..<length sequences] = [0..<length sequences] \<and>
     (\<forall>k<length sequences.
        position_of ids k < length sequences \<and>
        take (text_lengths ! position_of ids k) (texts ! position_of ids k) = sequences ! k) \<and>
     unpack mels mel_lengths ids =
       Inr (map (\<lambda>k. trim_mel (mels ! position_of ids k) (mel_lengths ! position_of ids k))
                [0..<length sequences])"
proof -
  let ?n = "length sequences"
  let ?xs = "map length sequences"
  let ?ids = "snd (srt ?xs)"
  let ?texts = "map (\<lambda>i. np_pad_right (sequences ! i) (Max (set ?xs) - length (sequences ! i))) ?ids"
  let ?lens = "map (\<lambda>i. length (sequences ! i)) ?ids"
  have p: "pad_sequences srt sequences = Inr (?texts, ?lens, ?ids)"
    by (rule pad_sequences_ok [OF ok ne])
  have len: "length ?ids = ?n" using sort_ok_length_ids [OF ok] by simp
  have d: "distinct ?ids" by (rule sort_ok_distinct [OF ok])
  have a: "map (\<lambda>k. ?ids ! position_of ?ids k) [0..<?n] = [0..<?n]"
  proof -
    have "map (\<lambda>k. ?ids ! position_of ?ids k) [0..<?n] = map (\<lambda>k. k) [0..<?n]"
      using pack_row_of_input(2) [OF ne ok] by (intro map_cong) auto
    then show ?thesis by simp
  qed
  have b: "map (\<lambda>p. position_of ?ids (?ids ! p)) [0..<?n] = [0..<?n]"
  proof -
    have "map (\<lambda>p. position_of ?ids (?ids ! p)) [0..<?n] = map (\<lambda>k. k) [0..<?n]"
      using position_of_nth [OF d] len by (intro map_cong) auto
    then show ?thesis by simp
  qed
  have c: "\<forall>k<?n. position_of ?ids k < ?n \<and>
        take (?lens ! position_of ?ids k) (?texts ! position_of ?ids k) = sequences ! k"
  proof (intro allI impI conjI)
    fix k assume k: "k < ?n"
    note q = pack_row_of_input [OF ne ok k]
    show "position_of ?ids k < ?n" by (rule q(1))
    show "take (?lens ! position_of ?ids k) (?texts ! position_of ?ids k) = sequences ! k"
      unfolding q(3) q(4) by (rule np_pad_right_take)
  qed
  have u: "unpack mels mel_lengths ?ids =
       Inr (map (\<lambda>k. trim_mel (mels ! position_of ?ids k) (mel_lengths ! position_of ?ids k))
                [0..<?n])"
    by (rule unpack_after_pack [OF ok lm ll])
  show ?thesis
    apply (rule exI [of _ ?texts], rule exI [of _ ?lens], rule exI [of _ ?ids])
    apply (intro conjI)
        apply (rule p)
       apply (rule a)
      apply (rule b)
     apply (rule c)
    apply (rule u)
    done
qed

theorem roundtrip_identity_witness:
  "[[7], [8, 9], [5], [3]] \<noteq> ([] :: int list list) \<and>
   torch_sort_desc_ok sort_desc_flip (map length [[7], [8, 9], [5], [3::int]]) \<and>
   length [[[1::int]], [[2]], [[3]], [[4]]] = length [[7], [8, 9], [5], [3::int]] \<and>
   length [1, 1, 1, 1::int] = length [[7], [8, 9], [5], [3::int]] \<and>
   (\<exists>texts text_lengths ids.
     pad_sequences sort_desc_flip [[7], [8, 9], [5], [3]] = Inr (texts, text_lengths, ids) \<and>
     map (\<lambda>k. ids ! position_of ids k) [0..<length [[7], [8, 9], [5], [3::int]]]
       = [0..<length [[7], [8, 9], [5], [3::int]]] \<and>
     unpack [[[1::int]], [[2]], [[3]], [[4]]] [1, 1, 1, 1] ids =
       Inr (map (\<lambda>k. trim_mel ([[[1::int]], [[2]], [[3]], [[4]]] ! position_of ids k)
                                 ([1, 1, 1, 1] ! position_of ids k))
                [0..<length [[7], [8, 9], [5], [3::int]]]))"
proof -
  have n: "[[7], [8, 9], [5], [3]] \<noteq> ([] :: int list list)" by simp
  have h: "torch_sort_desc_ok sort_desc_flip (map length [[7], [8, 9], [5], [3::int]])"
    by code_simp
  have lm: "length [[[1::int]], [[2]], [[3]], [[4]]] = length [[7], [8, 9], [5], [3::int]]"
    by simp
  have ll: "length [1, 1, 1, 1::int] = length [[7], [8, 9], [5], [3::int]]" by simp
  from roundtrip_identity [OF n h lm ll] obtain texts text_lengths ids where
    "pad_sequences sort_desc_flip [[7], [8, 9], [5], [3]] = Inr (texts, text_lengths, ids)"
    "map (\<lambda>k. ids ! position_of ids k) [0..<length [[7], [8, 9], [5], [3::int]]]
       = [0..<length [[7], [8, 9], [5], [3::int]]]"
    "unpack [[[1::int]], [[2]], [[3]], [[4]]] [1, 1, 1, 1] ids =
       Inr (map (\<lambda>k. trim_mel ([[[1::int]], [[2]], [[3]], [[4]]] ! position_of ids k)
                                 ([1, 1, 1, 1] ! position_of ids k))
                [0..<length [[7], [8, 9], [5], [3::int]]])"
    by (elim exE conjE)
  then have "\<exists>texts text_lengths ids.
     pad_sequences sort_desc_flip [[7], [8, 9], [5], [3]] = Inr (texts, text_lengths, ids) \<and>
     map (\<lambda>k. ids ! position_of ids k) [0..<length [[7], [8, 9], [5], [3::int]]]
       = [0..<length [[7], [8, 9], [5], [3::int]]] \<and>
     unpack [[[1::int]], [[2]], [[3]], [[4]]] [1, 1, 1, 1] ids =
       Inr (map (\<lambda>k. trim_mel ([[[1::int]], [[2]], [[3]], [[4]]] ! position_of ids k)
                                 ([1, 1, 1, 1] ! position_of ids k))
                [0..<length [[7], [8, 9], [5], [3::int]]])"
    by (intro exI conjI)
  with n h lm ll show ?thesis by (intro conjI)
qed

text \<open>
  Claim C4, as amended. The packer orders the sequences by length, not increasing. Two
  sequences \<open>i < j\<close> of equal length get two different rows of the batch, with equal
  entries in the length vector; which of the two rows comes first is the choice of
  \<^verbatim>\<open>torch.sort\<close> and is not fixed by the code. Whatever that choice, the unpacker returns
  the trimmed row of input \<open>i\<close> at position \<open>i\<close> and the trimmed row of input \<open>j\<close> at
  position \<open>j\<close>: after the round trip the two are in their original relative order.
\<close>

theorem ties_roundtrip:
  assumes ne: "sequences \<noteq> []"
    and ok: "torch_sort_desc_ok srt (map length sequences)"
    and lm: "length mels = length sequences"
    and ll: "length mel_lengths = length sequences"
    and ij: "i < j" and j: "j < length sequences"
    and eq: "length (sequences ! i) = length (sequences ! j)"
  shows "\<exists>texts text_lengths ids out.
     pad_sequences srt sequences = Inr (texts, text_lengths, ids) \<and>
     sorted (rev text_lengths) \<and>
     position_of ids i < length sequences \<and> position_of ids j < length sequences \<and>
     position_of ids i \<noteq> position_of ids j \<and>
     ids ! position_of ids i = i \<and> ids ! position_of ids j = j \<and>
     text_lengths ! position_of ids i = text_lengths ! position_of ids j \<and>
     unpack mels mel_lengths ids = Inr out \<and> length out = length sequences \<and>
     out ! i = trim_mel (mels ! position_of ids i) (mel_lengths ! position_of ids i) \<and>
     out ! j = trim_mel (mels ! position_of ids j) (mel_lengths ! position_of ids j)"
proof -
  let ?xs = "map length sequences"
  let ?n = "length sequences"
  let ?ids = "snd (srt ?xs)"
  let ?texts = "map (\<lambda>i. np_pad_right (sequences ! i) (Max (set ?xs) - length (sequences ! i))) ?ids"
  let ?lens = "map (\<lambda>i. length (sequences ! i)) ?ids"
  let ?out = "map (\<lambda>k. trim_mel (mels ! position_of ?ids k) (mel_lengths ! position_of ?ids k))
                [0..<?n]"
  from ij j have i: "i < ?n" by simp
  have p: "pad_sequences srt sequences = Inr (?texts, ?lens, ?ids)"
    by (rule pad_sequences_ok [OF ok ne])
  have st: "set ?ids = {0..<?n}" using sort_ok_set [OF ok] by simp
  have bound: "\<forall>i\<in>set ?ids. i < ?n" using st by simp
  have "fst (srt ?xs) = map (\<lambda>i. ?xs ! i) ?ids" by (rule sort_ok_vals [OF ok])
  also have "\<dots> = ?lens" using bound by (intro map_cong) auto
  finally have "fst (srt ?xs) = ?lens" .
  with sort_ok_sorted [OF ok] have so: "sorted (rev ?lens)" by simp
  note qi = pack_row_of_input [OF ne ok i]
  note qj = pack_row_of_input [OF ne ok j]
  from qi(2) qj(2) ij have nq: "position_of ?ids i \<noteq> position_of ?ids j" by auto
  have le: "?lens ! position_of ?ids i = ?lens ! position_of ?ids j"
    unfolding qi(3) qj(3) by (rule eq)
  have u: "unpack mels mel_lengths ?ids = Inr ?out"
    by (rule unpack_after_pack [OF ok lm ll])
  have oi: "?out ! i = trim_mel (mels ! position_of ?ids i) (mel_lengths ! position_of ?ids i)"
    using i by simp
  have oj: "?out ! j = trim_mel (mels ! position_of ?ids j) (mel_lengths ! position_of ?ids j)"
    using j by simp
  have lo: "length ?out = ?n" by simp
  show ?thesis
    apply (rule exI [of _ ?texts], rule exI [of _ ?lens], rule exI [of _ ?ids],
           rule exI [of _ ?out])
    apply (intro conjI)
               apply (rule p)
              apply (rule so)
             apply (rule qi(1))
            apply (rule qj(1))
           apply (rule nq)
          apply (rule qi(2))
         apply (rule qj(2))
        apply (rule le)
       apply (rule u)
      apply (rule lo)
     apply (rule oi)
    apply (rule oj)
    done
qed

theorem ties_roundtrip_witness:
  "[[1], [2]] \<noteq> ([] :: int list list) \<and>
   torch_sort_desc_ok sort_desc_flip (map length [[1], [2::int]]) \<and>
   length [[[10::int]], [[20]]] = length [[1], [2::int]] \<and>
   length [1, 1::int] = length [[1], [2::int]] \<and>
   (0::nat) < 1 \<and> (1::nat) < length [[1], [2::int]] \<and>
   length ([[1], [2::int]] ! 0) = length ([[1], [2::int]] ! 1) \<and>
   (\<exists>texts text_lengths ids out.
     pad_sequences sort_desc_flip [[1], [2]] = Inr (texts, text_lengths, ids) \<and>
     sorted (rev text_lengths) \<and>
     position_of ids 0 < length [[1], [2::int]] \<and> position_of ids 1 < length [[1], [2::int]] \<and>
     position_of ids 0 \<noteq> position_of ids 1 \<and>
     ids ! position_of ids 0 = 0 \<and> ids ! position_of ids 1 = 1 \<and>
     text_lengths ! position_of ids 0 = text_lengths ! position_of ids 1 \<and>
     unpack [[[10::int]], [[20]]] [1, 1] ids = Inr out \<and> length out = length [[1], [2::int]] \<and>
     out ! 0 = trim_mel ([[[10::int]], [[20]]] ! position_of ids 0) ([1, 1] ! position_of ids 0) \<and>
     out ! 1 = trim_mel ([[[10::int]], [[20]]] ! position_of ids 1) ([1, 1] ! position_of ids 1))"
proof -
  have n: "[[1], [2]] \<noteq> ([] :: int list list)" by simp
  have h: "torch_sort_desc_ok sort_desc_flip (map length [[1], [2::int]])" by code_simp
  have lm: "length [[[10::int]], [[20]]] = length [[1], [2::int]]" by simp
  have ll: "length [1, 1::int] = length [[1], [2::int]]" by simp
  have ij: "(0::nat) < 1" by simp
  have j: "(1::nat) < length [[1], [2::int]]" by simp
  have eq: "length ([[1], [2::int]] ! 0) = length ([[1], [2::int]] ! 1)" by simp
  from ties_roundtrip [OF n h lm ll ij j eq] n h lm ll ij j eq show ?thesis
    by (intro conjI)
qed

text \<open>
  Against claim C4 as stated: 17 sequences of equal length, sorted by the routine that
  leaves equal values as the introsort of the C++ standard library does. The contract of
  \<^verbatim>\<open>torch.sort\<close> is kept, and the batch does not hold the sequences in their original
  relative order: the row of input 8 comes first and the row of input 0 is the tenth.
\<close>

theorem ties_not_stable_counterexample:
  "torch_sort_desc_ok sort_desc_introsort_ties
     (map length [[1], [2], [3], [4], [5], [6], [7], [8], [9], [10], [11], [12], [13], [14],
                  [15], [16], [17::int]]) \<and>
   pad_sequences sort_desc_introsort_ties
     [[1], [2], [3], [4], [5], [6], [7], [8], [9], [10], [11], [12], [13], [14], [15], [16],
      [17]] =
     Inr ([[9], [17], [16], [15], [14], [13], [12], [11], [10], [1], [8], [7], [6], [5], [4],
           [3], [2]],
          [1, 1, 1, 1, 1, 1, 1, 1, 1, 1, 1, 1, 1, 1, 1, 1, 1],
          [8, 16, 15, 14, 13, 12, 11, 10, 9, 0, 7, 6, 5, 4, 3, 2, 1])"
  by code_simp

text \<open>
  Claim C5, as amended. Packing an empty list of sequences fails with the IndexError
  that \<^verbatim>\<open>text_lengths[0]\<close> raises on the empty tensor of sorted lengths.
\<close>

theorem pad_sequences_empty:
  assumes "torch_sort_desc_ok srt []"
  shows "pad_sequences srt [] = Inl IndexError"
proof -
  obtain vals ids where s: "srt [] = (vals, ids)" by (cases "srt []")
  from sort_ok_unfold(2,3) [OF assms s] have "vals = []" by simp
  with s show ?thesis by (simp add: pad_sequences_def)
qed

theorem pad_sequences_empty_witness:
  "torch_sort_desc_ok sort_desc_flip [] \<and> pad_sequences sort_desc_flip [] = Inl IndexError"
proof -
  have h: "torch_sort_desc_ok sort_desc_flip []" by code_simp
  from pad_sequences_empty [OF h] h show ?thesis by blast
qed

text \<open>
  Against claim C5 as stated: the failure on the empty list is an IndexError, not an
  EmptyBatchError.
\<close>

theorem empty_batch_error_counterexample:
  "pad_sequences sort_desc_stable [] = Inl IndexError \<and>
   pad_sequences sort_desc_stable [] \<noteq> Inl EmptyBatchError"
  by code_simp

text \<open>
  Claim C6, as amended. In a batch that is not empty, a sequence of length 0 does not
  make the packer fail: it becomes a row of \<open>L_max\<close> pad values, with 0 in the length
  vector.
\<close>

theorem pad_sequences_zero_length:
  assumes ne: "sequences \<noteq> []"
    and ok: "torch_sort_desc_ok srt (map length sequences)"
    and k: "k < length sequences"
    and z: "sequences ! k = []"
  shows "\<exists>texts text_lengths ids.
     pad_sequences srt sequences = Inr (texts, text_lengths, ids) \<and>
     position_of ids k < length sequences \<and> ids ! position_of ids k = k \<and>
     text_lengths ! position_of ids k = 0 \<and>
     texts ! position_of ids k = replicate (Max (set (map length sequences))) 0"
proof -
  let ?xs = "map length sequences"
  let ?ids = "snd (srt ?xs)"
  let ?texts = "map (\<lambda>i. np_pad_right (sequences ! i) (Max (set ?xs) - length (sequences ! i))) ?ids"
  let ?lens = "map (\<lambda>i. length (sequences ! i)) ?ids"
  have p: "pad_sequences srt sequences = Inr (?texts, ?lens, ?ids)"
    by (rule pad_sequences_ok [OF ok ne])
  note q = pack_row_of_input [OF ne ok k]
  have l: "?lens ! position_of ?ids k = 0" unfolding q(3) using z by simp
  have t: "?texts ! position_of ?ids k = replicate (Max (set ?xs)) 0"
    unfolding q(4) using z by (simp add: np_pad_right_def)
  show ?thesis
    apply (rule exI [of _ ?texts], rule exI [of _ ?lens], rule exI [of _ ?ids])
    apply (intro conjI)
        apply (rule p)
       apply (rule q(1))
      apply (rule q(2))
     apply (rule l)
    apply (rule t)
    done
qed

theorem pad_sequences_zero_length_witness:
  "[[], [4, 5, 6]] \<noteq> ([] :: int list list) \<and>
   torch_sort_desc_ok sort_desc_stable (map length [[], [4, 5, 6::int]]) \<and>
   (0::nat) < length [[], [4, 5, 6::int]] \<and> [[], [4, 5, 6::int]] ! 0 = [] \<and>
   (\<exists>texts text_lengths ids.
     pad_sequences sort_desc_stable [[], [4, 5, 6]] = Inr (texts, text_lengths, ids) \<and>
     position_of ids 0 < length [[], [4, 5, 6::int]] \<and> ids ! position_of ids 0 = 0 \<and>
     text_lengths ! position_of ids 0 = 0 \<and>
     texts ! position_of ids 0 = replicate (Max (set (map length [[], [4, 5, 6::int]]))) 0)"
proof -
  have n: "[[], [4, 5, 6]] \<noteq> ([] :: int list list)" by simp
  have h: "torch_sort_desc_ok sort_desc_stable (map length [[], [4, 5, 6::int]])"
    by code_simp
  have k: "(0::nat) < length [[], [4, 5, 6::int]]" by simp
  have z: "[[], [4, 5, 6::int]] ! 0 = []" by simp
  from pad_sequences_zero_length [OF n h k z] n h k z show ?thesis by (intro conjI)
qed

text \<open>
  Against claim C6 as stated: a batch with a sequence of length 0 is packed without
  any failure.
\<close>

theorem zero_length_counterexample:
  "torch_sort_desc_ok sort_desc_stable (map length [[1, 2], [] :: int list]) \<and>
   pad_sequences sort_desc_stable [[1, 2], []] = Inr ([[1, 2], [0, 0]], [2, 0], [0, 1])"
  by code_simp

section \<open>The unpacker's slices, the input lines, the timing wrapper and the saved file\<close>

lemma py_slice_to_whole:
  assumes "int (length row) \<le> n"
  shows "py_slice_to row n = row"
  using assms by (simp add: py_slice_to_def)

lemma trim_mel_whole:
  assumes "\<forall>row\<in>set mel. int (length row) \<le> n"
  shows "trim_mel mel n = mel"
  unfolding trim_mel_def using assms by (simp add: py_slice_to_whole map_idI)

text \<open>
  Claim C7, as amended. Lines 187 to 189 of \<^verbatim>\<open>main\<close> do not fail when the engine reports
  for a row a valid length beyond the row's width: for a permutation \<open>ids\<close> and as many
  rows and lengths as it has entries they return all the outputs, the slice
  \<^verbatim>\<open>mel[:, :length]\<close> is clamped to the width, and the row comes back whole, at the
  original position \<open>ids ! p\<close> of row \<open>p\<close>.
\<close>

theorem unpack_overlong_length:
  assumes d: "distinct ids" and perm: "set ids = {0..<length ids}"
    and lm: "length mels = length ids" and ll: "length mel_lengths = length ids"
    and p: "p < length ids"
    and over: "\<forall>row\<in>set (mels ! p). int (length row) < mel_lengths ! p"
  shows "\<exists>out. unpack mels mel_lengths ids = Inr out \<and> length out = length ids \<and>
           ids ! p < length ids \<and> out ! (ids ! p) = mels ! p"
proof -
  let ?out = "map (\<lambda>k. trim_mel (mels ! position_of ids k) (mel_lengths ! position_of ids k))
                  [0..<length ids]"
  have u: "unpack mels mel_lengths ids = Inr ?out" by (rule unpack_ok [OF perm lm ll])
  from p have "ids ! p \<in> set ids" by simp
  with perm have b: "ids ! p < length ids" by simp
  have "?out ! (ids ! p) = trim_mel (mels ! position_of ids (ids ! p))
                                     (mel_lengths ! position_of ids (ids ! p))"
    using b by simp
  also have "\<dots> = trim_mel (mels ! p) (mel_lengths ! p)"
    by (simp add: position_of_nth [OF d p])
  also have "\<dots> = mels ! p" using over by (intro trim_mel_whole) auto
  finally have o: "?out ! (ids ! p) = mels ! p" .
  have l: "length ?out = length ids" by simp
  show ?thesis
    apply (rule exI [of _ ?out])
    apply (intro conjI)
       apply (rule u)
      apply (rule l)
     apply (rule b)
    apply (rule o)
    done
qed

theorem unpack_overlong_length_witness:
  "distinct [1, 0::nat] \<and> set [1, 0::nat] = {0..<length [1, 0::nat]} \<and>
   length [[[1, 2, 3::int]], [[4, 5, 6]]] = length [1, 0::nat] \<and>
   length [9, 2::int] = length [1, 0::nat] \<and> (0::nat) < length [1, 0::nat] \<and>
   list_all (\<lambda>row. int (length row) < [9, 2::int] ! 0) ([[[1, 2, 3::int]], [[4, 5, 6]]] ! 0) \<and>
   (\<exists>out. unpack [[[1, 2, 3::int]], [[4, 5, 6]]] [9, 2] [1, 0] = Inr out \<and>
           length out = length [1, 0::nat] \<and> [1, 0::nat] ! 0 < length [1, 0::nat] \<and>
           out ! ([1, 0::nat] ! 0) = [[[1, 2, 3::int]], [[4, 5, 6]]] ! 0)"
proof -
  have d: "distinct [1, 0::nat]" by simp
  have perm: "set [1, 0::nat] = {0..<length [1, 0::nat]}" by auto
  have lm: "length [[[1, 2, 3::int]], [[4, 5, 6]]] = length [1, 0::nat]" by simp
  have ll: "length [9, 2::int] = length [1, 0::nat]" by simp
  have p: "(0::nat) < length [1, 0::nat]" by simp
  have over: "\<forall>row\<in>set ([[[1, 2, 3::int]], [[4, 5, 6]]] ! 0). int (length row) < [9, 2::int] ! 0"
    by simp
  have over': "list_all (\<lambda>row. int (length row) < [9, 2::int] ! 0)
                  ([[[1, 2, 3::int]], [[4, 5, 6]]] ! 0)"
    by simp
  from unpack_overlong_length [OF d perm lm ll p over] d perm lm ll p over'
  show ?thesis by (intro conjI)
qed

text \<open>
  Against claim C7 as stated: a row of width 2 with the reported valid length 5 is
  unpacked without any failure, untrimmed.
\<close>

theorem length_overflow_counterexample:
  "unpack [[[1, 2::int]]] [5] [0] = Inr [[[1, 2]]]"
  by code_simp

lemma slice_1_step_2_nth:
  "slice_1_step_2 xs = map (\<lambda>k. xs ! (2 * k + 1)) [0..<length xs div 2]"
proof (induction xs rule: slice_1_step_2.induct)
  case 1
  then show ?case by simp
next
  case (2 x)
  then show ?case by simp
next
  case (3 x y zs)
  have "[0..<length (x # y # zs) div 2] = 0 # map Suc [0..<length zs div 2]"
    by (simp add: upt_conv_Cons map_Suc_upt del: upt_Suc)
  then have "map (\<lambda>k. (x # y # zs) ! (2 * k + 1)) [0..<length (x # y # zs) div 2]
      = y # map (\<lambda>k. zs ! (2 * k + 1)) [0..<length zs div 2]"
    by (simp add: comp_def del: upt_Suc)
  with 3 show ?case by simp
qed

lemma py_isspace_iff:
  "py_isspace c \<longleftrightarrow>
     c \<in> {9..13} \<union> {28..32} \<union> {133, 160, 5760} \<union> {8192..8202}
         \<union> {8232, 8233, 8239, 8287, 12288}"
  by (auto simp: py_isspace_def)

lemma split_at_end:
  "b = rev (dropWhile P (rev b)) @ rev (takeWhile P (rev b))"
  by (metis rev_append rev_rev_ident takeWhile_dropWhile_id)

lemma strip_decompose:
  "s = takeWhile py_isspace s @ strip s
         @ rev (takeWhile py_isspace (rev (dropWhile py_isspace s)))"
proof -
  have "s = takeWhile py_isspace s @ dropWhile py_isspace s" by simp
  also have "dropWhile py_isspace s =
      strip s @ rev (takeWhile py_isspace (rev (dropWhile py_isspace s)))"
    unfolding strip_def by (rule split_at_end)
  finally show ?thesis .
qed

lemma strip_ends:
  assumes "strip s \<noteq> []"
  shows "\<not> py_isspace (hd (strip s))" and "\<not> py_isspace (last (strip s))"
proof -
  let ?b = "dropWhile py_isspace s"
  let ?d = "dropWhile py_isspace (rev ?b)"
  from assms have dne: "?d \<noteq> []" by (simp add: strip_def)
  then have "\<not> py_isspace (hd ?d)" by (rule hd_dropWhile)
  moreover have "last (strip s) = hd ?d" using dne by (simp add: strip_def last_rev)
  ultimately show "\<not> py_isspace (last (strip s))" by simp
  from dne have "rev ?b \<noteq> []" by (metis dropWhile.simps(1))
  then have bne: "?b \<noteq> []" by simp
  then have nb: "\<not> py_isspace (hd ?b)" by (rule hd_dropWhile)
  have "?b = rev ?d @ rev (takeWhile py_isspace (rev ?b))" by (rule split_at_end)
  then have "hd ?b = hd (rev ?d)" using dne by (metis hd_append2 rev_is_Nil_conv)
  with nb show "\<not> py_isspace (hd (strip s))" by (simp add: strip_def)
qed

text \<open>
  Claim C9. For every list of lines read from the input file, the texts are the lines
  of index 1, 3, 5, ... (the lines \<open>2 * k + 1\<close> for \<open>k\<close> below half the number of lines),
  each stripped, in this order; the encoder is called on these texts and on nothing
  else, so the lines of even index are discarded. Stripped means: the line is the text
  with white space before it and white space after it (code points 9 to 13, 28 to 32,
  133, 160, 5760, 8192 to 8202, 8232, 8233, 8239, 8287 and 12288, those of
  \<^verbatim>\<open>str.strip\<close>), and the text is empty or neither begins nor ends with white space.
\<close>

theorem texts_are_odd_lines:
  "texts_of_lines ls = map (\<lambda>k. strip (ls ! (2 * k + 1))) [0..<length ls div 2]
   \<and> encode_lines text_to_sequence speaker_id ls =
       map (\<lambda>k. text_to_sequence (strip (ls ! (2 * k + 1))) speaker_id [''basic_cleaners''])
           [0..<length ls div 2]
   \<and> length (texts_of_lines ls) = length ls div 2
   \<and> (\<forall>k<length ls div 2.
        \<exists>pre suf.
          ls ! (2 * k + 1) = pre @ texts_of_lines ls ! k @ suf \<and>
          set pre \<subseteq> {9..13} \<union> {28..32} \<union> {133, 160, 5760} \<union> {8192..8202}
                       \<union> {8232, 8233, 8239, 8287, 12288} \<and>
          set suf \<subseteq> {9..13} \<union> {28..32} \<union> {133, 160, 5760} \<union> {8192..8202}
                       \<union> {8232, 8233, 8239, 8287, 12288} \<and>
          (texts_of_lines ls ! k = [] \<or>
           hd (texts_of_lines ls ! k) \<notin> {9..13} \<union> {28..32} \<union> {133, 160, 5760}
               \<union> {8192..8202} \<union> {8232, 8233, 8239, 8287, 12288} \<and>
           last (texts_of_lines ls ! k) \<notin> {9..13} \<union> {28..32} \<union> {133, 160, 5760}
               \<union> {8192..8202} \<union> {8232, 8233, 8239, 8287, 12288}))"
proof -
  let ?WS = "{9..13} \<union> {28..32} \<union> {133, 160, 5760} \<union> {8192..8202}
              \<union> {8232, 8233, 8239, 8287, 12288::nat}"
  have "texts_of_lines ls = map (\<lambda>k. map strip ls ! (2 * k + 1)) [0..<length ls div 2]"
    by (simp add: texts_of_lines_def slice_1_step_2_nth)
  also have "\<dots> = map (\<lambda>k. strip (ls ! (2 * k + 1))) [0..<length ls div 2]"
    by (intro map_cong refl nth_map) auto
  finally have t: "texts_of_lines ls
      = map (\<lambda>k. strip (ls ! (2 * k + 1))) [0..<length ls div 2]" .
  then have e: "encode_lines text_to_sequence speaker_id ls =
       map (\<lambda>k. text_to_sequence (strip (ls ! (2 * k + 1))) speaker_id [''basic_cleaners''])
           [0..<length ls div 2]"
    by (simp add: encode_lines_def comp_def)
  from t have l: "length (texts_of_lines ls) = length ls div 2" by simp
  have ws: "\<And>xs. (\<forall>c\<in>set xs. py_isspace c) \<Longrightarrow> set xs \<subseteq> ?WS"
    unfolding py_isspace_iff by blast
  have s: "\<forall>k<length ls div 2.
        \<exists>pre suf.
          ls ! (2 * k + 1) = pre @ texts_of_lines ls ! k @ suf \<and>
          set pre \<subseteq> ?WS \<and> set suf \<subseteq> ?WS \<and>
          (texts_of_lines ls ! k = [] \<or>
           hd (texts_of_lines ls ! k) \<notin> ?WS \<and> last (texts_of_lines ls ! k) \<notin> ?WS)"
  proof (intro allI impI)
    fix k assume k: "k < length ls div 2"
    let ?line = "ls ! (2 * k + 1)"
    let ?pre = "takeWhile py_isspace ?line"
    let ?suf = "rev (takeWhile py_isspace (rev (dropWhile py_isspace ?line)))"
    from t k have tk: "texts_of_lines ls ! k = strip ?line" by simp
    have d: "?line = ?pre @ strip ?line @ ?suf" by (rule strip_decompose)
    have p: "set ?pre \<subseteq> ?WS" by (rule ws) (auto dest: set_takeWhileD)
    have q: "set ?suf \<subseteq> ?WS" by (rule ws) (auto dest: set_takeWhileD)
    have n: "strip ?line = [] \<or> hd (strip ?line) \<notin> ?WS \<and> last (strip ?line) \<notin> ?WS"
      using strip_ends [of ?line] unfolding py_isspace_iff by blast
    show "\<exists>pre suf.
          ls ! (2 * k + 1) = pre @ texts_of_lines ls ! k @ suf \<and>
          set pre \<subseteq> ?WS \<and> set suf \<subseteq> ?WS \<and>
          (texts_of_lines ls ! k = [] \<or>
           hd (texts_of_lines ls ! k) \<notin> ?WS \<and> last (texts_of_lines ls ! k) \<notin> ?WS)"
      unfolding tk
      apply (rule exI [of _ ?pre], rule exI [of _ ?suf])
      apply (intro conjI)
         apply (rule d)
        apply (rule p)
       apply (rule q)
      apply (rule n)
      done
  qed
  from t e l s show ?thesis by (intro conjI)
qed

theorem texts_are_odd_lines_witness:
  "texts_of_lines [[76, 74, 48, 49, 10], [32, 9, 72, 105, 32, 121, 111, 117, 160, 13, 10],
                   [76, 74, 48, 50, 10], [12288, 20320, 22909, 8195, 10], [76, 74, 48, 51]]
     = [[72, 105, 32, 121, 111, 117], [20320, 22909]]"
proof -
  let ?ls = "[[76, 74, 48, 49, 10], [32, 9, 72, 105, 32, 121, 111, 117, 160, 13, 10],
              [76, 74, 48, 50, 10], [12288, 20320, 22909, 8195, 10], [76, 74, 48, 51::nat]]"
  have r: "map (\<lambda>k. strip (?ls ! (2 * k + 1))) [0..<length ?ls div 2]
             = [[72, 105, 32, 121, 111, 117], [20320, 22909]]"
    by (simp add: strip_def py_isspace_def upt_rec)
  have "texts_of_lines ?ls = map (\<lambda>k. strip (?ls ! (2 * k + 1))) [0..<length ?ls div 2]"
    by (rule texts_are_odd_lines [of ?ls, THEN conjunct1])
  then show ?thesis unfolding r .
qed

lemma MeasureTime_with:
  assumes enter: "synchronize w = (Inr (), w1)"
    and body: "body w1 = (res, w2)"
    and exit: "synchronize w2 = (Inr (), w3)"
  shows "with_stmt (MeasureTime_enter synchronize) (MeasureTime_exit synchronize)
           (MeasureTime_init m k) body w =
         (case res of Inl e \<Rightarrow> Inl e | Inr v \<Rightarrow> Inr (Some v),
          w3\<lparr>dicts := (dicts w3)(m := (dicts w3 m)(k \<mapsto> clock w3 - clock w1))\<rparr>)"
  using assms
  by (cases res)
     (simp_all add: with_stmt_def MeasureTime_enter_def MeasureTime_exit_def
        MeasureTime_init_def)

text \<open>
  Claim C8, as amended. Let the synchronisation of \<^verbatim>\<open>__enter__\<close> succeed and leave the world \<open>w1\<close>, let
  the wrapped block end in any way, returning a value or raising (\<open>res\<close>), and let the
  synchronisation of \<^verbatim>\<open>__exit__\<close> succeed and leave \<open>w3\<close>. Then the \<^verbatim>\<open>with\<close> statement of
  \<^verbatim>\<open>MeasureTime\<close> leaves, in the dictionary \<open>m\<close> under the key \<open>k\<close>, the time elapsed
  between the two readings of the clock, on the normal and on the exceptional path
  alike; the value of the block is passed on and its exception is raised again. The
  same holds for lines 175 and 176 of \<^verbatim>\<open>main\<close> with the key \<^verbatim>\<open>tacotron2_time\<close>.
\<close>

theorem measure_time_records_on_every_exit:
  assumes enter: "synchronize w = (Inr (), w1)"
    and body: "body w1 = (res, w2)"
    and exit: "synchronize w2 = (Inr (), w3)"
  shows "with_stmt (MeasureTime_enter synchronize) (MeasureTime_exit synchronize)
           (MeasureTime_init m k) body w =
         (case res of Inl e \<Rightarrow> Inl e | Inr v \<Rightarrow> Inr (Some v),
          w3\<lparr>dicts := (dicts w3)(m := (dicts w3 m)(k \<mapsto> clock w3 - clock w1))\<rparr>)
       \<and> dicts (snd (with_stmt (MeasureTime_enter synchronize) (MeasureTime_exit synchronize)
                          (MeasureTime_init m k) body w)) m k
           = Some (clock w3 - clock w1)
       \<and> dicts (snd (timed_infer synchronize m body w)) m ''tacotron2_time''
           = Some (clock w3 - clock w1)
       \<and> fst (timed_infer synchronize m body w)
           = (case res of Inl e \<Rightarrow> Inl e | Inr v \<Rightarrow> Inr (Some (Some v)))"
proof -
  note a = MeasureTime_with [of synchronize w w1 body res w2 w3 m k, OF enter body exit]
  note a' = MeasureTime_with [of synchronize w w1 body res w2 w3 m "''tacotron2_time''",
      OF enter body exit]
  have t: "timed_infer synchronize m body w =
         (case res of Inl e \<Rightarrow> Inl e | Inr v \<Rightarrow> Inr (Some (Some v)),
          w3\<lparr>dicts := (dicts w3)
                 (m := (dicts w3 m)(''tacotron2_time'' \<mapsto> clock w3 - clock w1))\<rparr>)"
    unfolding timed_infer_def
    by (cases res)
       (simp_all add: with_stmt_def [of no_grad_enter] no_grad_enter_def no_grad_exit_def a')
  show ?thesis unfolding a t by simp
qed


theorem measure_time_records_on_every_exit_witness:
  "fst (timed_infer tick_synchronize 0 failing_infer start_world) = Inl RuntimeError
   \<and> dicts (snd (timed_infer tick_synchronize 0 failing_infer start_world)) 0 ''tacotron2_time''
       = Some 6
   \<and> fst (timed_infer tick_synchronize 0 returning_infer start_world) = Inr (Some (Some 42))
   \<and> dicts (snd (timed_infer tick_synchronize 0 returning_infer start_world)) 0 ''tacotron2_time''
       = Some 6"
proof -
  let ?w1 = "\<lparr>clock = 11, dicts = (\<lambda>r. Map.empty)\<rparr>"
  let ?w2 = "\<lparr>clock = 16, dicts = (\<lambda>r. Map.empty)\<rparr>"
  let ?w3 = "\<lparr>clock = 17, dicts = (\<lambda>r. Map.empty)\<rparr>"
  have e: "tick_synchronize start_world = (Inr (), ?w1)"
    by (simp add: tick_synchronize_def start_world_def)
  have bf: "failing_infer ?w1 = (Inl RuntimeError, ?w2)"
    by (simp add: failing_infer_def)
  have br: "returning_infer ?w1 = (Inr 42, ?w2)"
    by (simp add: returning_infer_def)
  have x: "tick_synchronize ?w2 = (Inr (), ?w3)"
    by (simp add: tick_synchronize_def)
  note f = measure_time_records_on_every_exit
    [of tick_synchronize start_world ?w1 failing_infer "Inl RuntimeError" ?w2 ?w3 0
        "''tacotron2_time''", OF e bf x]
  note r = measure_time_records_on_every_exit
    [of tick_synchronize start_world ?w1 returning_infer "Inr 42" ?w2 ?w3 0
        "''tacotron2_time''", OF e br x]
  from f r show ?thesis by simp
qed

lemma MeasureTime_exit_synchronize_raises:
  assumes enter: "synchronize w = (Inr (), w1)"
    and body: "body w1 = (res, w2)"
    and exit: "synchronize w2 = (Inl e', w3)"
  shows "with_stmt (MeasureTime_enter synchronize) (MeasureTime_exit synchronize)
           (MeasureTime_init m k) body w = (Inl e', w3)"
  using assms
  by (cases res)
     (simp_all add: with_stmt_def MeasureTime_enter_def MeasureTime_exit_def
        MeasureTime_init_def)

text \<open>
  Against claim C8 as stated: the synchronisation succeeds in \<^verbatim>\<open>__enter__\<close> and raises in
  \<^verbatim>\<open>__exit__\<close>. Whether the wrapped call raised or returned, the \<^verbatim>\<open>with\<close> statement ends
  with the exception of \<^verbatim>\<open>__exit__\<close> and the dictionary has no entry under the key: the
  measurement is lost.
\<close>

theorem measure_time_lost_counterexample:
  "fst (timed_infer raising_synchronize 0 failing_infer start_world) = Inl RuntimeError \<and>
   dicts (snd (timed_infer raising_synchronize 0 failing_infer start_world)) 0
     ''tacotron2_time'' = None \<and>
   fst (timed_infer raising_synchronize 0 returning_infer start_world) = Inl RuntimeError \<and>
   dicts (snd (timed_infer raising_synchronize 0 returning_infer start_world)) 0
     ''tacotron2_time'' = None"
  by (simp add: timed_infer_def with_stmt_def MeasureTime_enter_def MeasureTime_exit_def
        MeasureTime_init_def no_grad_enter_def no_grad_exit_def raising_synchronize_def
        failing_infer_def returning_infer_def start_world_def)







section \<open>The failures the model can return, and the reader\<close>

lemma pad_loop_errors:
  assumes "pad_loop sequences m ids = Inl e"
  shows "e = IndexError \<or> e = ValueError"
  using assms
  by (induction ids) (auto simp: Let_def split: if_splits sum.splits)

lemma np_stack_errors:
  assumes "np_stack rows = Inl e"
  shows "e = ValueError"
  using assms by (auto simp: np_stack_def split: list.splits if_splits)

lemma pad_sequences_errors:
  assumes "pad_sequences srt sequences = Inl e"
  shows "e = IndexError \<or> e = ValueError"
  using assms
  by (auto simp: pad_sequences_def split: prod.splits list.splits sum.splits
           dest: pad_loop_errors np_stack_errors)

lemma py_index_errors:
  assumes "py_index ids x = Inl e"
  shows "e = ValueError"
  using assms by (induction ids) (auto split: if_splits sum.splits)

lemma recover_loop_errors:
  assumes "recover_loop rows ids is = Inl e"
  shows "e = IndexError \<or> e = ValueError"
  using assms
  by (induction "is") (auto split: if_splits sum.splits dest: py_index_errors)

lemma unpack_errors:
  assumes "unpack mels mel_lengths ids = Inl e"
  shows "e = IndexError \<or> e = ValueError"
  using assms unfolding unpack_def recover_order_def by (rule recover_loop_errors)

lemma prepare_input_sequence_encode_lines:
  "prepare_input_sequence srt text_to_sequence (texts_of_lines ls) speaker_id =
     pad_sequences srt (encode_lines text_to_sequence speaker_id ls)"
  by (simp add: prepare_input_sequence_def encode_lines_def)

lemma read_sentences_first:
  assumes "readlines None = Inr ls"
  shows "read_sentences readlines = Inr (map strip ls)"
  using assms by (simp add: read_sentences_def)

lemma read_sentences_fallback:
  assumes "readlines None = Inl UnicodeDecodeError" and "readlines (Some ''gbk'') = Inr ls"
  shows "read_sentences readlines = Inr (map strip ls)"
  using assms by (simp add: read_sentences_def)

end
